theory Spec2Isabelle
  imports Complex_Main "HOL-Library.Multiset"
begin

section \<open>The analytics backend: upload, summary, retention, history\<close>

text \<open>
  A shallow embedding of \<^verbatim>\<open>backend/analytics/views.py\<close> and
  \<^verbatim>\<open>backend/analytics/models.py\<close>. The views call two libraries, pandas and Django's
  ORM; each call is embedded as a function of its own, named after the call, with the
  library's documented behaviour written out. The database table, the file storage and the
  clock are explicit: the table and the storage are the fields of a \<open>store\<close> that every
  view takes and returns, the clock reading is an argument of the upload.
\<close>

subsection \<open>Exceptions\<close>

text \<open>
  The exceptions that the views name or that the modelled library calls raise. Their
  message texts are the libraries' own; only the parser's message, which the view copies
  into its answer, is kept.
\<close>

datatype exn =
    EmptyDataError
  | ParserError string
  | KeyError string
  | TypeError
  | IntegrityError
  | DoesNotExist
  | MultipleObjectsReturned
  | FileNotFoundError
  | OtherError string

subsection \<open>The parsed table (pandas DataFrame)\<close>

text \<open>
  \<^verbatim>\<open>pd.read_csv\<close> yields a header and data rows. A field that is empty or one of the
  parser's missing-value markers is the missing value \<open>NA\<close> (NaN); a row with fewer fields
  than the header is padded with \<open>NA\<close>. A field of a column that parsed as numbers is
  \<open>Num\<close>; a field of a column that did not (dtype object) is the text \<open>Str\<close>. Numbers are
  exact rationals here: the rounding of binary floating point, infinite values and sums
  that overflow are not modelled.
\<close>

datatype cell = NA | Num rat | Str string

record dataframe =
  columns :: "string list"
  rows :: "cell list list"

text \<open>\<^verbatim>\<open>len(dataframe)\<close>: the number of data rows.\<close>

definition len :: "dataframe \<Rightarrow> nat" where
  "len df = length (rows df)"

definition cell_at :: "cell list \<Rightarrow> nat \<Rightarrow> cell" where
  "cell_at r i = (if i < length r then r ! i else NA)"

fun position :: "string \<Rightarrow> string list \<Rightarrow> nat option" where
  "position c [] = None"
| "position c (x # xs) =
     (if x = c then Some 0 else map_option Suc (position c xs))"

text \<open>\<^verbatim>\<open>dataframe[c]\<close>: the column named \<open>c\<close>, top to bottom; KeyError when there is none.\<close>

definition series :: "dataframe \<Rightarrow> string \<Rightarrow> exn + cell list" where
  "series df c =
     (case position c (columns df) of
        None \<Rightarrow> Inl (KeyError c)
      | Some i \<Rightarrow> Inr (map (\<lambda>r. cell_at r i) (rows df)))"

text \<open>\<^verbatim>\<open>dataframe[cs]\<close> for a list of names: the sub-table, KeyError at the first name absent.\<close>

fun select :: "dataframe \<Rightarrow> string list \<Rightarrow> exn + (string \<times> cell list) list" where
  "select df [] = Inr []"
| "select df (c # cs) =
     (case series df c of
        Inl e \<Rightarrow> Inl e
      | Inr col \<Rightarrow>
          (case select df cs of
             Inl e \<Rightarrow> Inl e
           | Inr sub \<Rightarrow> Inr ((c, col) # sub)))"

text \<open>
  A Python float as the summary holds it: a number, or NaN. \<^verbatim>\<open>Series.mean()\<close> skips
  missing values (skipna is on by default); over no values at all it is NaN; on a column
  that holds text it raises TypeError (numeric_only is off by default, as in pandas 2).
\<close>

datatype pyfloat = NaN | Val rat

fun is_Str :: "cell \<Rightarrow> bool" where
  "is_Str (Str s) = True"
| "is_Str c = False"

fun numbers :: "cell list \<Rightarrow> rat list" where
  "numbers [] = []"
| "numbers (Num v # cs) = v # numbers cs"
| "numbers (c # cs) = numbers cs"

definition mean :: "cell list \<Rightarrow> exn + pyfloat" where
  "mean col =
     (if list_ex is_Str col then Inl TypeError
      else (case numbers col of
              [] \<Rightarrow> Inr NaN
            | v # vs \<Rightarrow> Inr (Val (sum_list (v # vs) / of_nat (length (v # vs))))))"

text \<open>\<^verbatim>\<open>DataFrame.mean().to_dict()\<close>: the mean of every column, by column name.\<close>

fun mean_frame :: "(string \<times> cell list) list \<Rightarrow> exn + (string \<times> pyfloat) list" where
  "mean_frame [] = Inr []"
| "mean_frame ((c, col) # sub) =
     (case mean col of
        Inl e \<Rightarrow> Inl e
      | Inr m \<Rightarrow>
          (case mean_frame sub of
             Inl e \<Rightarrow> Inl e
           | Inr ms \<Rightarrow> Inr ((c, m) # ms)))"

text \<open>
  \<^verbatim>\<open>Series.value_counts().to_dict()\<close>: every distinct value of the column with the number
  of its occurrences. Missing values are not counted (dropna is on by default). The order
  of the entries (pandas sorts by count) is not modelled; no statement below depends on it.
\<close>

definition value_counts :: "cell list \<Rightarrow> (cell \<times> nat) list" where
  "value_counts col =
     (let present = filter (\<lambda>c. c \<noteq> NA) col
      in map (\<lambda>v. (v, count_list present v)) (remdups present))"

subsection \<open>The summary (\<^verbatim>\<open>UploadCSV._calculate_summary\<close>)\<close>

record summary =
  total_count :: nat
  averages :: "(string \<times> pyfloat) list"
  type_distribution :: "(cell \<times> nat) list"

definition numeric_columns :: "string list" where
  "numeric_columns = [''Flowrate'', ''Pressure'', ''Temperature'']"

definition calculate_summary :: "dataframe \<Rightarrow> exn + summary" where
  "calculate_summary df =
     (case select df numeric_columns of
        Inl e \<Rightarrow> Inl e
      | Inr sub \<Rightarrow>
          (case mean_frame sub of
             Inl e \<Rightarrow> Inl e
           | Inr avgs \<Rightarrow>
               (case series df ''Type'' of
                  Inl e \<Rightarrow> Inl e
                | Inr types \<Rightarrow>
                    Inr \<lparr>total_count = len df,
                         averages = avgs,
                         type_distribution = value_counts types\<rparr>)))"

subsection \<open>The Dataset model and the store\<close>

text \<open>
  The name of a stored file: the path that was asked for (\<^verbatim>\<open>uploads/\<close> and the name of
  the upload) and the number of the alternative that the storage had to take, 0 for the
  path itself. Django makes an alternative by putting a random suffix into the name; the
  number stands for that suffix.
\<close>

type_synonym stored_name = "string \<times> nat"

text \<open>
  A row of the Dataset table (\<^verbatim>\<open>models.py\<close>). \<open>pk\<close> is the automatic primary key.
  \<open>file_name\<close> (the field \<^verbatim>\<open>file\<close>) is the name under which the storage holds the
  upload, \<open>None\<close> for a row without a file (the field is then falsy in Python).
  \<open>uploaded_at\<close> is the clock reading at the insert (auto_now_add), in microseconds.
  \<open>summary\<close> is the nullable JSON field.
\<close>

record dataset =
  pk :: nat
  file_name :: "stored_name option"
  uploaded_at :: int
  summary :: "summary option"
  original_filename :: string
  preview_html :: string

text \<open>
  The store: the table's rows in the order in which the database engine scans them
  (inserts append), the next value of the primary-key sequence, and the file storage,
  stored name to content.
\<close>

record store =
  datasets :: "dataset list"
  next_pk :: nat
  storage :: "(stored_name \<times> string) list"

text \<open>\<^verbatim>\<open>Dataset.objects.count()\<close>.\<close>

definition count :: "store \<Rightarrow> nat" where
  "count s = length (datasets s)"

text \<open>
  \<^verbatim>\<open>order_by\<close>: the query orders by the one key it is given and by nothing else, so SQL
  leaves the order of rows with equal keys to the engine. The model returns them in scan
  order, as a stable sort does (SQLite, Django's default engine, does exactly this).
  \<^verbatim>\<open>order_by('-uploaded_at')\<close> is the descending order.
\<close>

definition order_by_uploaded_at :: "dataset list \<Rightarrow> dataset list" where
  "order_by_uploaded_at ds = sort_key uploaded_at ds"

definition order_by_uploaded_at_desc :: "dataset list \<Rightarrow> dataset list" where
  "order_by_uploaded_at_desc ds = sort_key (\<lambda>d. - uploaded_at d) ds"

text \<open>
  \<^verbatim>\<open>Dataset.objects.earliest('uploaded_at')\<close> and \<^verbatim>\<open>latest('uploaded_at')\<close>: the first
  row of the ascending, respectively descending, order; DoesNotExist on an empty table.
\<close>

definition earliest :: "store \<Rightarrow> exn + dataset" where
  "earliest s =
     (case order_by_uploaded_at (datasets s) of
        [] \<Rightarrow> Inl DoesNotExist
      | d # ds \<Rightarrow> Inr d)"

definition latest :: "store \<Rightarrow> exn + dataset" where
  "latest s =
     (case order_by_uploaded_at_desc (datasets s) of
        [] \<Rightarrow> Inl DoesNotExist
      | d # ds \<Rightarrow> Inr d)"

text \<open>\<^verbatim>\<open>Dataset.objects.get(pk=k)\<close>.\<close>

definition get :: "nat \<Rightarrow> store \<Rightarrow> exn + dataset" where
  "get k s =
     (case filter (\<lambda>d. pk d = k) (datasets s) of
        [] \<Rightarrow> Inl DoesNotExist
      | [d] \<Rightarrow> Inr d
      | d # e # ds \<Rightarrow> Inl MultipleObjectsReturned)"

text \<open>
  \<^verbatim>\<open>oldest.file.delete(save=False)\<close> removes the stored file of that name;
  \<^verbatim>\<open>oldest.delete()\<close> removes the row of that primary key.
\<close>

definition file_delete :: "stored_name \<Rightarrow> store \<Rightarrow> store" where
  "file_delete h s = s\<lparr>storage := filter (\<lambda>(n, c). n \<noteq> h) (storage s)\<rparr>"

definition delete :: "dataset \<Rightarrow> store \<Rightarrow> store" where
  "delete d s = s\<lparr>datasets := filter (\<lambda>e. pk e \<noteq> pk d) (datasets s)\<rparr>"

text \<open>
  \<^verbatim>\<open>Storage.get_available_name\<close>: the name asked for when no stored file has it;
  otherwise the loop of the storage takes one alternative after the other until it finds
  a name that no stored file has. A name that a deletion has freed is given out again.
  \<open>available taken nm k\<close> is the loop, at the \<open>k\<close>-th candidate for the path \<open>nm\<close>.
\<close>

function available :: "stored_name list \<Rightarrow> string \<Rightarrow> nat \<Rightarrow> nat" where
  "available taken nm k =
     (if (nm, k) \<in> set taken then available taken nm (Suc k) else k)"
  by pat_completeness auto
termination
proof (relation "measure (\<lambda>(taken, nm, k). card {j. k \<le> j \<and> (nm, j) \<in> set taken})")
  show "wf (measure (\<lambda>(taken, nm, k). card {j. k \<le> j \<and> (nm, j) \<in> set taken}))"
    by simp
next
  fix taken :: "stored_name list" and nm :: string and k :: nat
  assume taken: "(nm, k) \<in> set taken"
  have "{j. k \<le> j \<and> (nm, j) \<in> set taken} \<subseteq> snd ` set taken"
    by force
  then have fin: "finite {j. k \<le> j \<and> (nm, j) \<in> set taken}"
    by (rule finite_subset) simp
  have "k \<in> {j. k \<le> j \<and> (nm, j) \<in> set taken}"
    and "k \<notin> {j. Suc k \<le> j \<and> (nm, j) \<in> set taken}"
    and "{j. Suc k \<le> j \<and> (nm, j) \<in> set taken} \<subseteq> {j. k \<le> j \<and> (nm, j) \<in> set taken}"
    using taken by auto
  then have "{j. Suc k \<le> j \<and> (nm, j) \<in> set taken} \<subset> {j. k \<le> j \<and> (nm, j) \<in> set taken}"
    by blast
  then have "card {j. Suc k \<le> j \<and> (nm, j) \<in> set taken}
      < card {j. k \<le> j \<and> (nm, j) \<in> set taken}"
    using fin by (rule psubset_card_mono[rotated])
  then show "((taken, nm, Suc k), (taken, nm, k))
      \<in> measure (\<lambda>(taken, nm, k). card {j. k \<le> j \<and> (nm, j) \<in> set taken})"
    by simp
qed

declare available.simps [simp del]

definition get_available_name :: "(stored_name \<times> string) list \<Rightarrow> string \<Rightarrow> stored_name" where
  "get_available_name fs nm = (nm, available (map fst fs) nm 0)"

text \<open>
  The upload as the request carries it: \<^verbatim>\<open>request.FILES.get('file')\<close> is \<open>None\<close>
  when the form has no such part.
\<close>

record uploaded_file =
  name :: string
  content :: string

text \<open>
  The summary is stored in a JSON column (\<^verbatim>\<open>models.JSONField\<close>). The float NaN is
  written as the token \<^verbatim>\<open>NaN\<close>, which is not JSON: the database checks the column
  and refuses the row. An infinite float would be refused in the same way; there is none
  here, since the numbers of the model are exact.
\<close>

definition json_valid :: "summary \<Rightarrow> bool" where
  "json_valid sm = (\<not> list_ex (\<lambda>(k, v). v = NaN) (averages sm))"

text \<open>
  \<^verbatim>\<open>Dataset.objects.create(file=csv_file, summary=summary, original_filename=...)\<close>:
  the file is saved to the storage while the insert is prepared, under the name that the
  storage gives for \<^verbatim>\<open>uploads/\<close> and the name of the upload (the cleaning of that name
  by Django is not modelled); then the row is inserted with the next primary key and the
  clock reading. When the database refuses the row the exception leaves the saved file
  behind and no key is used.
\<close>

definition create :: "uploaded_file \<Rightarrow> summary \<Rightarrow> string \<Rightarrow> int \<Rightarrow> store \<Rightarrow> (exn + dataset) \<times> store" where
  "create f sm fname now s =
     (let h = get_available_name (storage s) (''uploads/'' @ name f);
          s1 = s\<lparr>storage := storage s @ [(h, content f)]\<rparr>
      in if \<not> json_valid sm then (Inl IntegrityError, s1)
         else
           (let d = \<lparr>pk = next_pk s, file_name = Some h, uploaded_at = now,
                     summary = Some sm, original_filename = fname, preview_html = []\<rparr>
            in (Inr d, s1\<lparr>datasets := datasets s @ [d], next_pk := Suc (next_pk s)\<rparr>)))"

subsection \<open>Retention (\<^verbatim>\<open>UploadCSV._cleanup_old_datasets\<close>)\<close>

definition MAX_DATASETS :: nat where
  "MAX_DATASETS = 5"

lemma set_order_by_uploaded_at:
  "set (order_by_uploaded_at ds) = set ds"
  by (simp add: order_by_uploaded_at_def)

lemma earliest_in_datasets:
  "earliest s = Inr d \<Longrightarrow> d \<in> set (datasets s)"
proof -
  assume e: "earliest s = Inr d"
  then obtain ds where "order_by_uploaded_at (datasets s) = d # ds"
    by (auto simp: earliest_def split: list.splits)
  then have "d \<in> set (order_by_uploaded_at (datasets s))"
    by simp
  then show ?thesis
    by (simp add: set_order_by_uploaded_at)
qed

lemma count_delete_less:
  assumes "d \<in> set (datasets s)"
  shows "count (delete d s) < count s"
proof -
  have "\<not> pk d \<noteq> pk d" by simp
  with assms have "length (filter (\<lambda>e. pk e \<noteq> pk d) (datasets s)) < length (datasets s)"
    by (intro length_filter_less)
  then show ?thesis
    by (simp add: count_def delete_def)
qed

lemma datasets_file_delete [simp]:
  "datasets (file_delete h s) = datasets s"
  by (simp add: file_delete_def)

lemma count_file_delete [simp]:
  "count (file_delete h s) = count s"
  by (simp add: count_def)

text \<open>
  The loop of the source, one deletion per turn. The first component of the result is the
  exception that left the loop, if any; the second is the store as the loop left it.
\<close>

function cleanup_old_datasets :: "store \<Rightarrow> exn option \<times> store" where
  "cleanup_old_datasets s =
     (if count s > MAX_DATASETS then
        (case earliest s of
           Inl e \<Rightarrow> (Some e, s)
         | Inr oldest \<Rightarrow>
             cleanup_old_datasets
               (delete oldest
                  (case file_name oldest of
                     None \<Rightarrow> s
                   | Some h \<Rightarrow> file_delete h s)))
      else (None, s))"
  by pat_completeness auto
termination
proof (relation "measure count")
  show "wf (measure count)" by simp
next
  fix s oldest
  assume "earliest s = Inr oldest"
  then have "oldest \<in> set (datasets s)"
    by (rule earliest_in_datasets)
  then have "oldest \<in> set (datasets (case file_name oldest of None \<Rightarrow> s | Some h \<Rightarrow> file_delete h s))"
    by (simp split: option.split)
  then have "count (delete oldest (case file_name oldest of None \<Rightarrow> s | Some h \<Rightarrow> file_delete h s))
      < count (case file_name oldest of None \<Rightarrow> s | Some h \<Rightarrow> file_delete h s)"
    by (rule count_delete_less)
  also have "\<dots> = count s"
    by (simp split: option.split)
  finally show "(delete oldest (case file_name oldest of None \<Rightarrow> s | Some h \<Rightarrow> file_delete h s), s)
      \<in> measure count"
    by simp
qed

declare cleanup_old_datasets.simps [simp del]

subsection \<open>The answers of the views\<close>

text \<open>
  \<^verbatim>\<open>Response(data, status=...)\<close>: one constructor of \<open>body\<close> for each payload that the
  views build. \<open>Error_missing_columns\<close> carries \<^verbatim>\<open>'required'\<close> (a list made from a set:
  its order is arbitrary, so it is kept as the set) and \<^verbatim>\<open>'found'\<close>.
\<close>

datatype body =
    Error_no_file
  | Error_missing_columns "string set" "string list"
  | Error_empty_csv
  | Error_invalid_format string
  | Error_processing exn
  | Dataset_data dataset
  | Dataset_list "dataset list"
  | Latest_data "summary option" int string
  | Error_no_datasets
  | Error_dataset_not_found
  | Error_file_not_found
  | File_attachment string string

datatype response = Response body nat

subsection \<open>Upload (\<^verbatim>\<open>UploadCSV.post\<close>)\<close>

definition REQUIRED_COLUMNS :: "string set" where
  "REQUIRED_COLUMNS = {''Equipment Name'', ''Type'', ''Flowrate'', ''Pressure'', ''Temperature''}"

text \<open>The three \<^verbatim>\<open>except\<close> clauses of \<^verbatim>\<open>post\<close>, in their order.\<close>

fun handler :: "exn \<Rightarrow> response" where
  "handler EmptyDataError = Response Error_empty_csv 400"
| "handler (ParserError m) = Response (Error_invalid_format m) 400"
| "handler e = Response (Error_processing e) 500"

text \<open>
  \<open>read_csv\<close> is pandas' parser, an argument of the model: it maps the bytes of the
  upload to a table or to the exception it raises. \<open>now\<close> is the clock reading.
  A file object whose name is empty is falsy, like no file at all.
\<close>

definition post ::
  "(string \<Rightarrow> exn + dataframe) \<Rightarrow> int \<Rightarrow> uploaded_file option \<Rightarrow> store \<Rightarrow> response \<times> store" where
  "post read_csv now csv_file s =
     (case csv_file of
        None \<Rightarrow> (Response Error_no_file 400, s)
      | Some f \<Rightarrow>
          if name f = [] then (Response Error_no_file 400, s)
          else
            (case read_csv (content f) of
               Inl e \<Rightarrow> (handler e, s)
             | Inr df \<Rightarrow>
                 if \<not> REQUIRED_COLUMNS \<subseteq> set (columns df) then
                   (Response (Error_missing_columns REQUIRED_COLUMNS (columns df)) 400, s)
                 else
                   (case calculate_summary df of
                      Inl e \<Rightarrow> (handler e, s)
                    | Inr sm \<Rightarrow>
                        (case create f sm (name f) now s of
                           (Inl e, s1) \<Rightarrow> (handler e, s1)
                         | (Inr d, s1) \<Rightarrow>
                             (case cleanup_old_datasets s1 of
                                (Some e, s2) \<Rightarrow> (handler e, s2)
                              | (None, s2) \<Rightarrow> (Response (Dataset_data d) 201, s2))))))"

subsection \<open>History, download and latest summary\<close>

text \<open>\<^verbatim>\<open>HistoryList.get\<close>: the serializer walks the whole query set into a list.\<close>

definition history_list :: "store \<Rightarrow> response" where
  "history_list s = Response (Dataset_list (order_by_uploaded_at_desc (datasets s))) 200"

text \<open>
  \<^verbatim>\<open>DatasetDownload.get\<close>: only DoesNotExist is caught; opening a file that the storage
  does not hold raises.
\<close>

definition dataset_download :: "nat \<Rightarrow> store \<Rightarrow> exn + response" where
  "dataset_download k s =
     (case get k s of
        Inl DoesNotExist \<Rightarrow> Inr (Response Error_dataset_not_found 404)
      | Inl e \<Rightarrow> Inl e
      | Inr d \<Rightarrow>
          (case file_name d of
             None \<Rightarrow> Inr (Response Error_file_not_found 404)
           | Some h \<Rightarrow>
               (case map_of (storage s) h of
                  None \<Rightarrow> Inl FileNotFoundError
                | Some c \<Rightarrow>
                    Inr (Response
                           (File_attachment c
                              (if original_filename d = [] then ''dataset.csv''
                               else original_filename d))
                           200))))"

text \<open>\<^verbatim>\<open>LatestSummary.get\<close>.\<close>

definition latest_summary :: "store \<Rightarrow> exn + response" where
  "latest_summary s =
     (case latest s of
        Inl DoesNotExist \<Rightarrow> Inr (Response Error_no_datasets 404)
      | Inl e \<Rightarrow> Inl e
      | Inr d \<Rightarrow>
          Inr (Response (Latest_data (summary d) (uploaded_at d) (original_filename d)) 200))"

section \<open>Sequences of uploads and example inputs\<close>

text \<open>
  \<open>uploads\<close> runs one \<open>post\<close> after the other, each on the store that the one before
  left, and lists every answer with the store after it.
\<close>

fun uploads ::
  "(string \<Rightarrow> exn + dataframe) \<Rightarrow> (int \<times> uploaded_file option) list \<Rightarrow> store \<Rightarrow> (response \<times> store) list" where
  "uploads read_csv [] s = []"
| "uploads read_csv ((now, req) # reqs) s =
     (let out = post read_csv now req s in out # uploads read_csv reqs (snd out))"

text \<open>
  The tables used as concrete inputs. \<open>example_table\<close> is the two-row table of the
  specification's example; \<open>missing_type_table\<close> has an empty \<open>Type\<close> field in its second
  row and \<open>missing_type_summary\<close> is its summary; in \<open>text_flowrate_table\<close> the
  \<open>Flowrate\<close> column holds a field that is not a number, so the whole column is text;
  in \<open>na_flowrate_table\<close> the \<open>Flowrate\<close> field of the first row is \<^verbatim>\<open>N/A\<close>, one of
  the markers that \<^verbatim>\<open>read_csv\<close> reads as a missing value, and \<open>na_summary\<close> is its
  summary; \<open>header_only_table\<close> has the header and no row; \<open>lowercase_table\<close> has the
  five columns in another order, with \<open>type\<close> in lower case.
\<close>

definition example_columns :: "string list" where
  "example_columns = [''Equipment Name'', ''Type'', ''Flowrate'', ''Pressure'', ''Temperature'']"

definition example_table :: dataframe where
  "example_table =
     \<lparr>columns = example_columns,
      rows = [[Str ''P1'', Str ''Pump'', Num 10, Num 5, Num 20],
              [Str ''V1'', Str ''Valve'', Num 20, Num 15, Num 30]]\<rparr>"

definition example_summary :: summary where
  "example_summary =
     \<lparr>total_count = 2,
      averages = [(''Flowrate'', Val 15), (''Pressure'', Val 10), (''Temperature'', Val 25)],
      type_distribution = [(Str ''Pump'', 1), (Str ''Valve'', 1)]\<rparr>"

definition missing_type_table :: dataframe where
  "missing_type_table =
     \<lparr>columns = example_columns,
      rows = [[Str ''P1'', Str ''Pump'', Num 10, Num 5, Num 20],
              [Str ''V1'', NA, Num 20, Num 15, Num 30]]\<rparr>"

definition missing_type_summary :: summary where
  "missing_type_summary =
     \<lparr>total_count = 2,
      averages = [(''Flowrate'', Val 15), (''Pressure'', Val 10), (''Temperature'', Val 25)],
      type_distribution = [(Str ''Pump'', 1)]\<rparr>"

definition text_flowrate_table :: dataframe where
  "text_flowrate_table =
     \<lparr>columns = example_columns,
      rows = [[Str ''P1'', Str ''Pump'', Str ''10'', Num 5, Num 20],
              [Str ''V1'', Str ''Valve'', Str ''abc'', Num 15, Num 30]]\<rparr>"



definition header_only_table :: dataframe where
  "header_only_table = \<lparr>columns = example_columns, rows = []\<rparr>"

definition lowercase_table :: dataframe where
  "lowercase_table =
     \<lparr>columns = [''Temperature'', ''Pressure'', ''Flowrate'', ''type'', ''Equipment Name''],
      rows = [[Num 20, Num 5, Num 10, Str ''Pump'', Str ''P1'']]\<rparr>"

definition example_file :: uploaded_file where
  "example_file = \<lparr>name = ''data.csv'', content = ''bytes''\<rparr>"

definition empty_store :: store where
  "empty_store = \<lparr>datasets = [], next_pk = 1, storage = []\<rparr>"

text \<open>
  Stores used as concrete inputs. \<open>one_store\<close> and \<open>tie_store\<close> are the stores after one
  and after two uploads of \<open>example_file\<close> into \<open>empty_store\<close>, both at the clock reading
  7 (lemmas \<open>first_upload\<close> and \<open>second_upload\<close> below). \<open>stored k\<close> is the \<open>k\<close>-th
  name for \<open>example_file\<close>. \<open>na_store\<close> is the store after the upload of \<open>example_file\<close>
  with the table \<open>na_flowrate_table\<close> into \<open>empty_store\<close>. \<open>kept is n\<close> holds the rows numbered \<open>is\<close> of a run of
  uploads of \<open>example_file\<close>, row \<open>i\<close> uploaded at time \<open>i\<close>: with at most six files in
  the storage at any time, the file of row \<open>i\<close> has the name \<open>stored ((i - 1) mod 6)\<close>, so
  the seventh upload is stored under the name that the first one had.
\<close>

definition stored :: "nat \<Rightarrow> stored_name" where
  "stored k = (''uploads/data.csv'', k)"

definition first_dataset :: dataset where
  "first_dataset =
     \<lparr>pk = 1, file_name = Some (stored 0), uploaded_at = 7, summary = Some example_summary,
      original_filename = ''data.csv'', preview_html = []\<rparr>"

definition second_dataset :: dataset where
  "second_dataset =
     \<lparr>pk = 2, file_name = Some (stored 1), uploaded_at = 7, summary = Some example_summary,
      original_filename = ''data.csv'', preview_html = []\<rparr>"

definition one_store :: store where
  "one_store =
     \<lparr>datasets = [first_dataset], next_pk = 2, storage = [(stored 0, ''bytes'')]\<rparr>"

definition tie_store :: store where
  "tie_store =
     \<lparr>datasets = [first_dataset, second_dataset], next_pk = 3,
      storage = [(stored 0, ''bytes''), (stored 1, ''bytes'')]\<rparr>"



definition nth_dataset :: "nat \<Rightarrow> dataset" where
  "nth_dataset i =
     \<lparr>pk = i, file_name = Some (stored ((i - 1) mod 6)), uploaded_at = int i,
      summary = Some example_summary, original_filename = ''data.csv'', preview_html = []\<rparr>"

definition kept :: "nat list \<Rightarrow> nat \<Rightarrow> store" where
  "kept is n =
     \<lparr>datasets = map nth_dataset is, next_pk = n,
      storage = map (\<lambda>i. (stored ((i - 1) mod 6), ''bytes'')) is\<rparr>"

lemmas example_defs = example_columns_def example_table_def missing_type_table_def
  text_flowrate_table_def header_only_table_def lowercase_table_def example_file_def
  empty_store_def example_summary_def

lemmas summary_defs = calculate_summary_def numeric_columns_def series_def cell_at_def
  mean_def value_counts_def len_def

section \<open>Properties\<close>

subsection \<open>Columns, means and counts\<close>

lemma sum_value_counts:
  "sum_list (map snd (value_counts col)) = length (filter (\<lambda>c. c \<noteq> NA) col)"
proof -
  define present where "present = filter (\<lambda>c. c \<noteq> NA) col"
  have "sum_list (map snd (value_counts col)) = sum_list (map (count_list present) (remdups present))"
    by (simp add: value_counts_def present_def comp_def Let_def)
  also have "\<dots> = sum (count_list present) (set present)"
    by (simp add: sum_code)
  also have "\<dots> = length present"
    by (rule sum_count_set) simp_all
  finally show ?thesis
    by (simp add: present_def)
qed

lemma length_filter_eq_iff:
  "length (filter P xs) = length xs \<longleftrightarrow> (\<forall>x\<in>set xs. P x)"
proof (induction xs)
  case Nil
  show ?case by simp
next
  case (Cons a xs)
  have "length (filter P xs) \<noteq> Suc (length xs)"
    using length_filter_le[of P xs] by linarith
  with Cons show ?case by auto
qed

lemma position_Some:
  "c \<in> set cs \<Longrightarrow> \<exists>i. position c cs = Some i"
  by (induction cs) auto


lemma series_length:
  "series df c = Inr col \<Longrightarrow> length col = length (rows df)"
  by (auto simp: series_def split: option.splits)

lemma calculate_summary_Inr:
  assumes "calculate_summary df = Inr sm"
  shows "total_count sm = length (rows df)"
    and "\<exists>types. series df ''Type'' = Inr types \<and> type_distribution sm = value_counts types"
  using assms
  by (auto simp: calculate_summary_def len_def split: sum.splits)

lemma handler_not_missing_columns:
  "handler e \<noteq> Response (Error_missing_columns r fd) n"
  by (cases e) simp_all

lemma handler_not_created:
  "handler e \<noteq> Response (Dataset_data d) 201"
  by (cases e) simp_all






lemma series_no_rows:
  "c \<in> set (columns df) \<Longrightarrow> rows df = [] \<Longrightarrow> series df c = Inr []"
  using position_Some[of c "columns df"] by (auto simp: series_def)

lemma calculate_summary_no_rows:
  assumes "REQUIRED_COLUMNS \<subseteq> set (columns df)" and "rows df = []"
  shows "calculate_summary df =
     Inr \<lparr>total_count = 0,
          averages = [(''Flowrate'', NaN), (''Pressure'', NaN), (''Temperature'', NaN)],
          type_distribution = []\<rparr>"
proof -
  have "''Flowrate'' \<in> set (columns df)" "''Pressure'' \<in> set (columns df)"
    "''Temperature'' \<in> set (columns df)" "''Type'' \<in> set (columns df)"
    using assms(1) by (auto simp: REQUIRED_COLUMNS_def)
  then show ?thesis
    using assms(2)
    by (simp add: calculate_summary_def numeric_columns_def series_no_rows mean_def
        value_counts_def len_def)
qed

lemma example_required:
  "REQUIRED_COLUMNS \<subseteq> set example_columns"
  by (simp add: REQUIRED_COLUMNS_def example_columns_def)

lemma example_table_columns:
  "columns example_table = example_columns"
  by (simp add: example_table_def)

lemma example_calculate_summary:
  "calculate_summary example_table = Inr example_summary"
  by (simp add: summary_defs example_defs)

lemma example_json_valid:
  "json_valid example_summary"
  by (simp add: json_valid_def example_summary_def)

subsection \<open>The retention loop\<close>

lemma earliest_nonempty:
  "datasets s \<noteq> [] \<Longrightarrow> \<exists>d. earliest s = Inr d"
proof -
  assume "datasets s \<noteq> []"
  then have "set (order_by_uploaded_at (datasets s)) \<noteq> {}"
    by (simp add: set_order_by_uploaded_at)
  then show ?thesis
    by (auto simp: earliest_def split: list.splits)
qed

lemma earliest_sorted:
  assumes "datasets s = d # ds" and "sorted (map uploaded_at (d # ds))"
  shows "earliest s = Inr d"
proof -
  have "order_by_uploaded_at (datasets s) = d # ds"
    unfolding order_by_uploaded_at_def assms(1) using assms(2) by (rule sort_key_id_if_sorted)
  then show ?thesis
    by (simp add: earliest_def)
qed

lemma cleanup_noop:
  "count s \<le> MAX_DATASETS \<Longrightarrow> cleanup_old_datasets s = (None, s)"
  by (simp add: cleanup_old_datasets.simps)

lemma cleanup_step:
  assumes "count s > MAX_DATASETS" and "earliest s = Inr oldest"
  shows "cleanup_old_datasets s =
     cleanup_old_datasets
       (delete oldest (case file_name oldest of None \<Rightarrow> s | Some h \<Rightarrow> file_delete h s))"
  using assms by (subst cleanup_old_datasets.simps) simp

lemma cleanup_result:
  "fst (cleanup_old_datasets s) = None \<and> count (snd (cleanup_old_datasets s)) \<le> MAX_DATASETS"
proof (induction s rule: cleanup_old_datasets.induct)
  case (1 s)
  show ?case
  proof (cases "count s > MAX_DATASETS")
    case False
    then show ?thesis by (simp add: cleanup_noop)
  next
    case True
    then have "datasets s \<noteq> []" by (auto simp: count_def)
    then obtain oldest where o: "earliest s = Inr oldest"
      using earliest_nonempty by blast
    show ?thesis
      using "1.IH"[OF True o] by (simp add: cleanup_step[OF True o])
  qed
qed

lemma cleanup_one_over:
  assumes "datasets s = d # ds" and "length ds = MAX_DATASETS"
    and "sorted (map uploaded_at (d # ds))"
  shows "cleanup_old_datasets s =
     (None, delete d (case file_name d of None \<Rightarrow> s | Some h \<Rightarrow> file_delete h s))"
proof -
  let ?s1 = "case file_name d of None \<Rightarrow> s | Some h \<Rightarrow> file_delete h s"
  have over: "count s > MAX_DATASETS"
    using assms(1,2) by (simp add: count_def)
  have e: "earliest s = Inr d"
    using assms(1,3) by (rule earliest_sorted)
  have ds1: "datasets ?s1 = d # ds"
    using assms(1) by (simp split: option.split)
  then have "d \<in> set (datasets ?s1)"
    by simp
  then have "count (delete d ?s1) < count ?s1"
    by (rule count_delete_less)
  also have "count ?s1 = Suc MAX_DATASETS"
    using ds1 assms(2) by (simp add: count_def)
  finally have "count (delete d ?s1) \<le> MAX_DATASETS"
    by simp
  then have "cleanup_old_datasets (delete d ?s1) = (None, delete d ?s1)"
    by (rule cleanup_noop)
  then show ?thesis
    by (simp add: cleanup_step[OF over e])
qed

lemma cleanup_record_over:
  assumes "length ds = MAX_DATASETS" and "sorted (map uploaded_at (d # ds))"
  shows "cleanup_old_datasets \<lparr>datasets = d # ds, next_pk = n, storage = fs\<rparr> =
     (None, delete d (case file_name d of
                        None \<Rightarrow> \<lparr>datasets = d # ds, next_pk = n, storage = fs\<rparr>
                      | Some h \<Rightarrow> file_delete h \<lparr>datasets = d # ds, next_pk = n, storage = fs\<rparr>))"
  using assms by (intro cleanup_one_over) simp_all

lemma post_count:
  "count (snd (post read_csv now req s)) \<le> MAX_DATASETS \<or>
   datasets (snd (post read_csv now req s)) = datasets s"
proof -
  have c: "count s2 \<le> MAX_DATASETS" if "cleanup_old_datasets s1 = (e, s2)" for s1 e s2
    using cleanup_result[of s1] that by simp
  show ?thesis
    by (auto simp: post_def create_def Let_def c split: option.splits sum.splits prod.splits if_splits)
qed

subsection \<open>Ordering by upload time\<close>

lemma order_by_uploaded_at_desc_sorted:
  "sorted_wrt (\<lambda>a b. uploaded_at b \<le> uploaded_at a) (order_by_uploaded_at_desc ds)"
proof -
  have "sorted (map (\<lambda>d. - uploaded_at d) (order_by_uploaded_at_desc ds))"
    unfolding order_by_uploaded_at_desc_def by (rule sorted_sort_key)
  then show ?thesis
    by (simp add: sorted_map)
qed

lemma mset_order_by_uploaded_at_desc:
  "mset (order_by_uploaded_at_desc ds) = mset ds"
  by (simp add: order_by_uploaded_at_desc_def)

lemma set_order_by_uploaded_at_desc:
  "set (order_by_uploaded_at_desc ds) = set ds"
  by (simp add: order_by_uploaded_at_desc_def)

lemma sorted_wrt_distinct_strict:
  "sorted_wrt (\<lambda>a b. f b \<le> f a) xs \<Longrightarrow> distinct (map f xs) \<Longrightarrow>
   sorted_wrt (\<lambda>a b. (f b :: int) < f a) xs"
proof (induction xs)
  case Nil
  show ?case by simp
next
  case (Cons a xs)
  have "f x < f a" if "x \<in> set xs" for x
  proof -
    have "f x \<le> f a" using Cons.prems(1) that by simp
    moreover have "f a \<notin> f ` set xs" using Cons.prems(2) by simp
    then have "f x \<noteq> f a" using that by (metis imageI)
    ultimately show ?thesis by simp
  qed
  with Cons show ?case by simp
qed

lemma order_by_uploaded_at_desc_strict:
  assumes "distinct (map uploaded_at ds)"
  shows "sorted_wrt (\<lambda>a b. uploaded_at b < uploaded_at a) (order_by_uploaded_at_desc ds)"
proof -
  let ?xs = "order_by_uploaded_at_desc ds"
  have "mset (map uploaded_at ?xs) = mset (map uploaded_at ds)"
    by (simp add: mset_order_by_uploaded_at_desc)
  then have "distinct (map uploaded_at ?xs)"
    using assms mset_eq_imp_distinct_iff by blast
  with order_by_uploaded_at_desc_sorted[of ds] show ?thesis
    by (rule sorted_wrt_distinct_strict)
qed

lemma strictly_ascending_distinct:
  "sorted_wrt (\<lambda>a b. uploaded_at a < uploaded_at b) ds \<Longrightarrow> distinct (map uploaded_at ds)"
  by (induction ds) auto

lemma order_by_uploaded_at_desc_rev:
  assumes "sorted_wrt (\<lambda>a b. uploaded_at a < uploaded_at b) ds"
  shows "order_by_uploaded_at_desc ds = rev ds"
  unfolding order_by_uploaded_at_desc_def
proof (rule sort_key_inj_key_eq)
  show "mset ds = mset (rev ds)" by simp
next
  have "distinct (map uploaded_at ds)"
    using assms by (rule strictly_ascending_distinct)
  then have "inj_on uploaded_at (set ds)"
    by (simp add: distinct_map)
  then show "inj_on (\<lambda>d. - uploaded_at d) (set ds)"
    by (auto simp: inj_on_def)
next
  have "sorted_wrt (\<lambda>a b. uploaded_at a \<le> uploaded_at b) ds"
    using assms by (rule sorted_wrt_mono_rel[rotated]) simp
  then show "sorted (map (\<lambda>d. - uploaded_at d) (rev ds))"
    by (simp add: sorted_map sorted_wrt_rev)
qed

lemma latest_empty_iff:
  "latest s = Inl DoesNotExist \<longleftrightarrow> datasets s = []"
proof -
  have "order_by_uploaded_at_desc (datasets s) = [] \<longleftrightarrow> datasets s = []"
    using set_order_by_uploaded_at_desc[of "datasets s"] by (metis set_empty)
  then show ?thesis
    by (auto simp: latest_def split: list.splits)
qed

lemma latest_only_DoesNotExist:
  "latest s = Inl e \<Longrightarrow> e = DoesNotExist"
  by (auto simp: latest_def split: list.splits)

lemma latest_maximum:
  assumes "latest s = Inr d"
  shows "d \<in> set (datasets s) \<and> (\<forall>e\<in>set (datasets s). uploaded_at e \<le> uploaded_at d)"
proof -
  from assms obtain ds where o: "order_by_uploaded_at_desc (datasets s) = d # ds"
    by (auto simp: latest_def split: list.splits)
  have "sorted_wrt (\<lambda>a b. uploaded_at b \<le> uploaded_at a) (d # ds)"
    using order_by_uploaded_at_desc_sorted[of "datasets s"] by (simp add: o)
  then have "\<forall>e\<in>set (d # ds). uploaded_at e \<le> uploaded_at d"
    by auto
  moreover have "set (d # ds) = set (datasets s)"
    using set_order_by_uploaded_at_desc[of "datasets s"] by (simp add: o)
  ultimately show ?thesis
    by auto
qed

subsection \<open>A successful upload\<close>

lemma available_free:
  "(nm, available taken nm k) \<notin> set taken"
proof (induction taken nm k rule: available.induct)
  case (1 taken nm k)
  show ?case
  proof (cases "(nm, k) \<in> set taken")
    case True
    with "1.IH" show ?thesis
      by (subst available.simps) simp
  next
    case False
    then show ?thesis
      by (subst available.simps) simp
  qed
qed

lemma get_available_name_free:
  "get_available_name fs nm \<notin> fst ` set fs"
  using available_free[of nm "map fst fs" 0] by (simp add: get_available_name_def)

lemma get_available_name_asked:
  "(nm, 0) \<notin> fst ` set fs \<Longrightarrow> get_available_name fs nm = (nm, 0)"
  by (simp add: get_available_name_def available.simps)

lemma post_created:
  assumes "post read_csv now req s = (Response (Dataset_data d) 201, s')"
  shows "\<exists>f sm h. req = Some f \<and> name f \<noteq> [] \<and> json_valid sm \<and>
     h = get_available_name (storage s) (''uploads/'' @ name f) \<and>
     d = \<lparr>pk = next_pk s, file_name = Some h, uploaded_at = now,
          summary = Some sm, original_filename = name f, preview_html = []\<rparr> \<and>
     cleanup_old_datasets
       (s\<lparr>storage := storage s @ [(h, content f)],
          datasets := datasets s @ [d], next_pk := Suc (next_pk s)\<rparr>) = (None, s')"
  using assms
  by (auto simp: post_def create_def Let_def handler_not_created
      split: option.splits sum.splits prod.splits if_splits)

lemma post_created_below:
  assumes "post read_csv now req s = (Response (Dataset_data d) 201, s')"
    and "count s < MAX_DATASETS"
  shows "\<exists>f h. req = Some f \<and> h \<notin> fst ` set (storage s) \<and>
     pk d = next_pk s \<and> file_name d = Some h \<and> uploaded_at d = now \<and>
     datasets s' = datasets s @ [d] \<and> next_pk s' = Suc (next_pk s) \<and>
     storage s' = storage s @ [(h, content f)]"
proof -
  obtain f :: uploaded_file and sm h where
    r: "req = Some f"
    and h: "h = get_available_name (storage s) (''uploads/'' @ name f)"
    and d: "d = \<lparr>pk = next_pk s, file_name = Some h, uploaded_at = now,
          summary = Some sm, original_filename = name f, preview_html = []\<rparr>"
    and c: "cleanup_old_datasets
       (s\<lparr>storage := storage s @ [(h, content f)],
          datasets := datasets s @ [d], next_pk := Suc (next_pk s)\<rparr>) = (None, s')"
    using post_created[OF assms(1)] by blast
  have free: "h \<notin> fst ` set (storage s)"
    unfolding h by (rule get_available_name_free)
  have "s' = s\<lparr>storage := storage s @ [(h, content f)],
          datasets := datasets s @ [d], next_pk := Suc (next_pk s)\<rparr>"
    using c assms(2) by (simp add: cleanup_noop count_def)
  then have "pk d = next_pk s \<and> file_name d = Some h \<and> uploaded_at d = now \<and>
     datasets s' = datasets s @ [d] \<and> next_pk s' = Suc (next_pk s) \<and>
     storage s' = storage s @ [(h, content f)]"
    by (simp add: d)
  with r free show ?thesis
    by blast
qed

lemma post_created_full:
  assumes "post read_csv now req s = (Response (Dataset_data d) 201, s')"
    and "datasets s = old # ds" and "Suc (length ds) = MAX_DATASETS"
    and "sorted (map uploaded_at (old # ds) @ [now])"
    and "file_name old = Some h0"
  shows "\<exists>f h. req = Some f \<and> h \<notin> fst ` set (storage s) \<and>
     pk d = next_pk s \<and> file_name d = Some h \<and> uploaded_at d = now \<and>
     datasets s' = filter (\<lambda>e. pk e \<noteq> pk old) (old # ds @ [d]) \<and>
     next_pk s' = Suc (next_pk s) \<and>
     storage s' = filter (\<lambda>(n, c). n \<noteq> h0) (storage s @ [(h, content f)])"
proof -
  obtain f :: uploaded_file and sm h where
    r: "req = Some f"
    and h: "h = get_available_name (storage s) (''uploads/'' @ name f)"
    and d: "d = \<lparr>pk = next_pk s, file_name = Some h, uploaded_at = now,
          summary = Some sm, original_filename = name f, preview_html = []\<rparr>"
    and c: "cleanup_old_datasets
       (s\<lparr>storage := storage s @ [(h, content f)],
          datasets := datasets s @ [d], next_pk := Suc (next_pk s)\<rparr>) = (None, s')"
    using post_created[OF assms(1)] by blast
  have free: "h \<notin> fst ` set (storage s)"
    unfolding h by (rule get_available_name_free)
  let ?s1 = "s\<lparr>storage := storage s @ [(h, content f)],
          datasets := datasets s @ [d], next_pk := Suc (next_pk s)\<rparr>"
  have ds: "datasets ?s1 = old # (ds @ [d])"
    by (simp add: assms(2))
  have len: "length (ds @ [d]) = MAX_DATASETS"
    using assms(3) by simp
  have srt: "sorted (map uploaded_at (old # (ds @ [d])))"
    using assms(4) by (simp add: d)
  have "cleanup_old_datasets ?s1 =
      (None, delete old (case file_name old of None \<Rightarrow> ?s1 | Some h \<Rightarrow> file_delete h ?s1))"
    using ds len srt by (rule cleanup_one_over)
  with c have "s' = delete old (file_delete h0 ?s1)"
    by (simp add: assms(5))
  then have "pk d = next_pk s \<and> file_name d = Some h \<and> uploaded_at d = now \<and>
     datasets s' = filter (\<lambda>e. pk e \<noteq> pk old) (old # ds @ [d]) \<and>
     next_pk s' = Suc (next_pk s) \<and>
     storage s' = filter (\<lambda>(n, c). n \<noteq> h0) (storage s @ [(h, content f)])"
    by (simp add: d delete_def file_delete_def assms(2))
  with r free show ?thesis
    by blast
qed

lemma get_absent:
  "k \<notin> pk ` set (datasets s) \<Longrightarrow> dataset_download k s = Inr (Response Error_dataset_not_found 404)"
proof -
  assume "k \<notin> pk ` set (datasets s)"
  then have "filter (\<lambda>d. pk d = k) (datasets s) = []"
    by (auto simp: filter_empty_conv)
  then show ?thesis
    by (simp add: dataset_download_def get_def)
qed

lemmas upload_defs = post_def example_calculate_summary create_def example_json_valid
  get_available_name_def available.simps stored_def cleanup_noop cleanup_record_over
  delete_def file_delete_def count_def MAX_DATASETS_def Let_def example_table_columns
  example_file_def nth_dataset_def kept_def

lemma first_upload:
  "post (\<lambda>bytes. Inr example_table) 7 (Some example_file) empty_store =
     (Response (Dataset_data first_dataset) 201, one_store)"
  using example_required
  by (simp add: post_def example_calculate_summary create_def example_json_valid
      get_available_name_def available.simps stored_def cleanup_noop count_def
      MAX_DATASETS_def Let_def example_table_columns example_file_def empty_store_def
      first_dataset_def one_store_def)

lemma second_upload:
  "post (\<lambda>bytes. Inr example_table) 7 (Some example_file) one_store =
     (Response (Dataset_data second_dataset) 201, tie_store)"
  using example_required
  by (simp add: post_def example_calculate_summary create_def example_json_valid
      get_available_name_def available.simps stored_def cleanup_noop count_def
      MAX_DATASETS_def Let_def example_table_columns example_file_def one_store_def
      first_dataset_def second_dataset_def tie_store_def)

lemma seven_uploads:
  "post (\<lambda>bytes. Inr example_table) 1 (Some example_file) (kept [] 1) =
     (Response (Dataset_data (nth_dataset 1)) 201, kept [1] 2)"
  "post (\<lambda>bytes. Inr example_table) 2 (Some example_file) (kept [1] 2) =
     (Response (Dataset_data (nth_dataset 2)) 201, kept [1, 2] 3)"
  "post (\<lambda>bytes. Inr example_table) 3 (Some example_file) (kept [1, 2] 3) =
     (Response (Dataset_data (nth_dataset 3)) 201, kept [1, 2, 3] 4)"
  "post (\<lambda>bytes. Inr example_table) 4 (Some example_file) (kept [1, 2, 3] 4) =
     (Response (Dataset_data (nth_dataset 4)) 201, kept [1, 2, 3, 4] 5)"
  "post (\<lambda>bytes. Inr example_table) 5 (Some example_file) (kept [1, 2, 3, 4] 5) =
     (Response (Dataset_data (nth_dataset 5)) 201, kept [1, 2, 3, 4, 5] 6)"
  "post (\<lambda>bytes. Inr example_table) 6 (Some example_file) (kept [1, 2, 3, 4, 5] 6) =
     (Response (Dataset_data (nth_dataset 6)) 201, kept [2, 3, 4, 5, 6] 7)"
  "post (\<lambda>bytes. Inr example_table) 7 (Some example_file) (kept [2, 3, 4, 5, 6] 7) =
     (Response (Dataset_data (nth_dataset 7)) 201, kept [3, 4, 5, 6, 7] 8)"
  using example_required by (simp_all add: upload_defs)

subsection \<open>C1: at most MAX_DATASETS rows after an upload\<close>

text \<open>
  C1. Starting from any store with at most \<open>MAX_DATASETS\<close> rows, after every upload of
  every sequence of uploads (those that succeed and those that fail) the store has at most
  \<open>MAX_DATASETS = 5\<close> rows.
\<close>

theorem count_bounded:
  assumes "count s \<le> MAX_DATASETS"
  shows "\<forall>(r, s')\<in>set (uploads read_csv reqs s). count s' \<le> MAX_DATASETS"
  using assms
proof (induction reqs arbitrary: s)
  case Nil
  show ?case by simp
next
  case (Cons a reqs)
  obtain now req where a: "a = (now, req)" by (cases a)
  have c: "count (snd (post read_csv now req s)) \<le> MAX_DATASETS"
    using post_count[of read_csv now req s] Cons.prems by (auto simp: count_def)
  show ?case
    using Cons.IH[OF c] c by (auto simp: a Let_def)
qed

theorem count_bounded_witness:
  "count (kept [] 1) \<le> MAX_DATASETS \<and>
   list_all (\<lambda>out. count (snd out) \<le> MAX_DATASETS)
     (uploads (\<lambda>bytes. Inr example_table)
        [(1, Some example_file), (2, Some example_file), (3, Some example_file),
         (4, Some example_file), (5, Some example_file), (6, Some example_file),
         (7, Some example_file), (8, None)]
        (kept [] 1)) \<and>
   map (\<lambda>out. count (snd out))
     (uploads (\<lambda>bytes. Inr example_table)
        [(1, Some example_file), (2, Some example_file), (3, Some example_file),
         (4, Some example_file), (5, Some example_file), (6, Some example_file),
         (7, Some example_file), (8, None)]
        (kept [] 1)) = [1, 2, 3, 4, 5, 5, 5, 5]"
proof -
  let ?reqs = "[(1, Some example_file), (2, Some example_file), (3, Some example_file),
         (4, Some example_file), (5, Some example_file), (6, Some example_file),
         (7, Some example_file), (8, None)]"
  have c: "count (kept [] 1) \<le> MAX_DATASETS"
    by (simp add: count_def kept_def)
  from count_bounded[OF c, of "\<lambda>bytes. Inr example_table" ?reqs]
  have b: "list_all (\<lambda>out. count (snd out) \<le> MAX_DATASETS)
     (uploads (\<lambda>bytes. Inr example_table) ?reqs (kept [] 1))"
    unfolding list_all_iff by auto
  have n: "post (\<lambda>bytes. Inr example_table) 8 None (kept [3, 4, 5, 6, 7] 8) =
      (Response Error_no_file 400, kept [3, 4, 5, 6, 7] 8)"
    by (simp add: post_def)
  have m: "map (\<lambda>out. count (snd out)) (uploads (\<lambda>bytes. Inr example_table) ?reqs (kept [] 1)) =
      [1, 2, 3, 4, 5, 5, 5, 5]"
    unfolding uploads.simps Let_def seven_uploads n snd_conv list.map
    by (simp add: count_def kept_def)
  from c b m show ?thesis
    by blast
qed

subsection \<open>C2: the total count and the type distribution\<close>

text \<open>
  C2, as the code has it. For every table with the required columns whose summary is
  computed, \<open>total_count\<close> is the number of data rows, and the values of
  \<open>type_distribution\<close> add up to the number of rows whose \<open>Type\<close> field is not missing:
  at most \<open>total_count\<close>, and equal to it exactly when no \<open>Type\<close> field is missing.
\<close>

theorem summary_counts:
  assumes "REQUIRED_COLUMNS \<subseteq> set (columns df)"
    and "calculate_summary df = Inr sm"
  shows "total_count sm = length (rows df) \<and>
    (\<exists>types. series df ''Type'' = Inr types \<and>
       length types = length (rows df) \<and>
       sum_list (map snd (type_distribution sm)) = length (filter (\<lambda>c. c \<noteq> NA) types) \<and>
       sum_list (map snd (type_distribution sm)) \<le> total_count sm \<and>
       (sum_list (map snd (type_distribution sm)) = total_count sm \<longleftrightarrow> NA \<notin> set types))"
proof -
  have tc: "total_count sm = length (rows df)"
    using assms(2) by (rule calculate_summary_Inr)
  obtain types where ty: "series df ''Type'' = Inr types"
    and td: "type_distribution sm = value_counts types"
    using calculate_summary_Inr(2)[OF assms(2)] by blast
  have len: "length types = length (rows df)"
    using ty by (rule series_length)
  have s: "sum_list (map snd (type_distribution sm)) = length (filter (\<lambda>c. c \<noteq> NA) types)"
    by (simp add: td sum_value_counts)
  have le: "sum_list (map snd (type_distribution sm)) \<le> total_count sm"
    by (simp add: s tc len[symmetric])
  have eq: "sum_list (map snd (type_distribution sm)) = total_count sm \<longleftrightarrow> NA \<notin> set types"
    unfolding s tc len[symmetric] length_filter_eq_iff by auto
  from tc ty len s le eq show ?thesis by blast
qed

theorem summary_counts_witness:
  "REQUIRED_COLUMNS \<subseteq> set (columns example_table) \<and>
   calculate_summary example_table = Inr example_summary \<and>
   total_count example_summary = length (rows example_table) \<and>
   sum_list (map snd (type_distribution example_summary)) = total_count example_summary"
proof -
  have r: "REQUIRED_COLUMNS \<subseteq> set (columns example_table)"
    using example_required by (simp add: example_table_def)
  have ty: "series example_table ''Type'' = Inr [Str ''Pump'', Str ''Valve'']"
    by (simp add: summary_defs example_defs)
  from summary_counts[OF r example_calculate_summary] ty r example_calculate_summary
  show ?thesis by auto
qed

text \<open>
  C2 as stated fails on \<open>missing_type_table\<close>: two rows, and a distribution that
  adds up to one, because \<^verbatim>\<open>value_counts()\<close> leaves missing values out.
\<close>

theorem type_distribution_sum_counterexample:
  "REQUIRED_COLUMNS \<subseteq> set (columns missing_type_table) \<and>
   calculate_summary missing_type_table = Inr missing_type_summary \<and>
   total_count missing_type_summary = 2 \<and>
   sum_list (map snd (type_distribution missing_type_summary)) = 1 \<and>
   sum_list (map snd (type_distribution missing_type_summary)) \<noteq> total_count missing_type_summary"
  using example_required by (simp add: summary_defs example_defs missing_type_summary_def)

subsection \<open>C3: missing required columns\<close>

text \<open>
  C3. For an upload that parses to a table, the answer is the missing-columns error if and
  only if the required set is not a subset of the table's columns (as a set of strings:
  exact, case-sensitive, whatever the order of the columns); the error carries the required
  set and the columns found, and the store is returned as it was.
\<close>

theorem missing_columns_iff:
  assumes "name f \<noteq> []" and "read_csv (content f) = Inr df"
  shows "((\<exists>r fd n. fst (post read_csv now (Some f) s) = Response (Error_missing_columns r fd) n)
            \<longleftrightarrow> \<not> REQUIRED_COLUMNS \<subseteq> set (columns df)) \<and>
         (\<not> REQUIRED_COLUMNS \<subseteq> set (columns df) \<longrightarrow>
            post read_csv now (Some f) s =
              (Response (Error_missing_columns REQUIRED_COLUMNS (columns df)) 400, s))"
proof (cases "REQUIRED_COLUMNS \<subseteq> set (columns df)")
  case True
  have "fst (post read_csv now (Some f) s) \<noteq> Response (Error_missing_columns r fd) n" for r fd n
    using assms True
    by (auto simp: post_def handler_not_missing_columns split: sum.splits prod.splits option.splits)
  with True show ?thesis by blast
next
  case False
  then have "post read_csv now (Some f) s =
      (Response (Error_missing_columns REQUIRED_COLUMNS (columns df)) 400, s)"
    using assms by (simp add: post_def)
  with False show ?thesis by auto
qed

theorem missing_columns_iff_witness:
  "name example_file \<noteq> [] \<and>
   \<not> REQUIRED_COLUMNS \<subseteq> set (columns lowercase_table) \<and>
   post (\<lambda>bytes. Inr lowercase_table) 0 (Some example_file) empty_store =
     (Response (Error_missing_columns REQUIRED_COLUMNS (columns lowercase_table)) 400, empty_store) \<and>
   REQUIRED_COLUMNS \<subseteq> set (columns example_table) \<and>
   post (\<lambda>bytes. Inr example_table) 7 (Some example_file) empty_store =
     (Response (Dataset_data first_dataset) 201, one_store) \<and>
   \<not> (\<exists>r fd n. fst (post (\<lambda>bytes. Inr example_table) 7 (Some example_file) empty_store) =
         Response (Error_missing_columns r fd) n)"
proof -
  have n: "name example_file \<noteq> []"
    by (simp add: example_file_def)
  have r: "(\<lambda>bytes. Inr lowercase_table) (content example_file) = Inr lowercase_table"
    by simp
  have m: "\<not> REQUIRED_COLUMNS \<subseteq> set (columns lowercase_table)"
    by (simp add: REQUIRED_COLUMNS_def lowercase_table_def)
  have r': "(\<lambda>bytes. Inr example_table) (content example_file) = Inr example_table"
    by simp
  have q: "REQUIRED_COLUMNS \<subseteq> set (columns example_table)"
    using example_required by (simp add: example_table_columns)
  from missing_columns_iff[OF n r, of 0 empty_store] m
  have a: "post (\<lambda>bytes. Inr lowercase_table) 0 (Some example_file) empty_store =
     (Response (Error_missing_columns REQUIRED_COLUMNS (columns lowercase_table)) 400, empty_store)"
    by simp
  from missing_columns_iff[OF n r', of 7 empty_store] q
  have b: "\<not> (\<exists>r fd n. fst (post (\<lambda>bytes. Inr example_table) 7 (Some example_file) empty_store) =
         Response (Error_missing_columns r fd) n)"
    by blast
  from n m a q first_upload b show ?thesis
    by blast
qed

subsection \<open>C4: a field of a numeric column that is not a number\<close>













subsection \<open>C5: seven uploads into an empty store\<close>

text \<open>
  C5. Seven successful uploads at strictly increasing times \<open>t1 < ... < t7\<close> into a store
  without rows and without files, \<open>d1 ... d7\<close> being the datasets they create. Afterwards
  the history is exactly \<open>d7, d6, d5, d4, d3\<close>, uploaded at \<open>t7 ... t3\<close>; \<open>d1\<close> and \<open>d2\<close>
  are gone and their files with them: a download of either answers 404; the file of \<open>d1\<close>
  was in the storage after the fifth upload and is deleted by the retention pass of the
  sixth, the file of \<open>d2\<close> by the pass of the seventh; and at the end the storage holds
  five files under five different names, the uploads of \<open>d3 ... d7\<close>, each under the name
  that its Dataset has (a later upload may have been given the name that a deleted file
  had). The pass of the sixth upload deleted \<open>d1\<close> alone and that of the seventh \<open>d2\<close>
  alone: the oldest row each time.
\<close>

theorem eviction_order:
  assumes empty: "datasets s0 = []" "storage s0 = []"
    and times: "t1 < t2" "t2 < t3" "t3 < t4" "t4 < t5" "t5 < t6" "t6 < t7"
    and u1: "post read_csv t1 r1 s0 = (Response (Dataset_data d1) 201, s1)"
    and u2: "post read_csv t2 r2 s1 = (Response (Dataset_data d2) 201, s2)"
    and u3: "post read_csv t3 r3 s2 = (Response (Dataset_data d3) 201, s3)"
    and u4: "post read_csv t4 r4 s3 = (Response (Dataset_data d4) 201, s4)"
    and u5: "post read_csv t5 r5 s4 = (Response (Dataset_data d5) 201, s5)"
    and u6: "post read_csv t6 r6 s5 = (Response (Dataset_data d6) 201, s6)"
    and u7: "post read_csv t7 r7 s6 = (Response (Dataset_data d7) 201, s7)"
  shows "history_list s7 = Response (Dataset_list [d7, d6, d5, d4, d3]) 200 \<and>
    map uploaded_at [d7, d6, d5, d4, d3] = [t7, t6, t5, t4, t3] \<and>
    dataset_download (pk d1) s7 = Inr (Response Error_dataset_not_found 404) \<and>
    dataset_download (pk d2) s7 = Inr (Response Error_dataset_not_found 404) \<and>
    (\<exists>h1 h2. file_name d1 = Some h1 \<and> file_name d2 = Some h2 \<and>
       map_of (storage s5) h1 \<noteq> None \<and> map_of (storage s5) h1 = map_option content r1 \<and>
       map_of (storage s6) h1 = None \<and>
       map_of (storage s6) h2 \<noteq> None \<and> map_of (storage s6) h2 = map_option content r2 \<and>
       map_of (storage s7) h2 = None) \<and>
    map (\<lambda>(h, c). (Some h, Some c)) (storage s7) =
      map (\<lambda>(d, r). (file_name d, map_option content r))
        [(d3, r3), (d4, r4), (d5, r5), (d6, r6), (d7, r7)] \<and>
    distinct (map fst (storage s7)) \<and>
    datasets s5 = [d1, d2, d3, d4, d5] \<and>
    datasets s6 = [d2, d3, d4, d5, d6] \<and>
    datasets s7 = [d3, d4, d5, d6, d7]"
proof -
  have c0: "count s0 < MAX_DATASETS"
    by (simp add: count_def MAX_DATASETS_def empty)
  from post_created_below[OF u1 c0] obtain f1 h1 where
    r1: "r1 = Some f1"
    and p1: "pk d1 = next_pk s0" and f1: "file_name d1 = Some h1" and a1: "uploaded_at d1 = t1"
    and D1: "datasets s1 = [d1]" and n1: "next_pk s1 = Suc (next_pk s0)"
    and S1: "storage s1 = [(h1, content f1)]"
    by (auto simp: empty)
  have c1: "count s1 < MAX_DATASETS"
    by (simp add: count_def MAX_DATASETS_def D1)
  from post_created_below[OF u2 c1] obtain f2 h2 where
    r2: "r2 = Some f2" and x2: "h2 \<noteq> h1"
    and p2: "pk d2 = next_pk s0 + 1" and f2: "file_name d2 = Some h2"
    and a2: "uploaded_at d2 = t2"
    and D2: "datasets s2 = [d1, d2]" and n2: "next_pk s2 = next_pk s0 + 2"
    and S2: "storage s2 = [(h1, content f1), (h2, content f2)]"
    by (auto simp: D1 n1 S1)
  have c2: "count s2 < MAX_DATASETS"
    by (simp add: count_def MAX_DATASETS_def D2)
  from post_created_below[OF u3 c2] obtain f3 h3 where
    r3: "r3 = Some f3" and x3: "h3 \<noteq> h1" "h3 \<noteq> h2"
    and p3: "pk d3 = next_pk s0 + 2" and f3: "file_name d3 = Some h3"
    and a3: "uploaded_at d3 = t3"
    and D3: "datasets s3 = [d1, d2, d3]" and n3: "next_pk s3 = next_pk s0 + 3"
    and S3: "storage s3 = [(h1, content f1), (h2, content f2), (h3, content f3)]"
    by (auto simp: D2 n2 S2)
  have c3: "count s3 < MAX_DATASETS"
    by (simp add: count_def MAX_DATASETS_def D3)
  from post_created_below[OF u4 c3] obtain f4 h4 where
    r4: "r4 = Some f4" and x4: "h4 \<noteq> h1" "h4 \<noteq> h2" "h4 \<noteq> h3"
    and p4: "pk d4 = next_pk s0 + 3" and f4: "file_name d4 = Some h4"
    and a4: "uploaded_at d4 = t4"
    and D4: "datasets s4 = [d1, d2, d3, d4]" and n4: "next_pk s4 = next_pk s0 + 4"
    and S4: "storage s4 = [(h1, content f1), (h2, content f2), (h3, content f3), (h4, content f4)]"
    by (auto simp: D3 n3 S3)
  have c4: "count s4 < MAX_DATASETS"
    by (simp add: count_def MAX_DATASETS_def D4)
  from post_created_below[OF u5 c4] obtain f5 h5 where
    r5: "r5 = Some f5" and x5: "h5 \<noteq> h1" "h5 \<noteq> h2" "h5 \<noteq> h3" "h5 \<noteq> h4"
    and p5: "pk d5 = next_pk s0 + 4" and f5: "file_name d5 = Some h5"
    and a5: "uploaded_at d5 = t5"
    and D5: "datasets s5 = [d1, d2, d3, d4, d5]" and n5: "next_pk s5 = next_pk s0 + 5"
    and S5: "storage s5 = [(h1, content f1), (h2, content f2), (h3, content f3), (h4, content f4), (h5, content f5)]"
    by (auto simp: D4 n4 S4)
  have l5: "Suc (length [d2, d3, d4, d5]) = MAX_DATASETS"
    by (simp add: MAX_DATASETS_def)
  have o5: "sorted (map uploaded_at (d1 # [d2, d3, d4, d5]) @ [t6])"
    using times by (simp add: a1 a2 a3 a4 a5)
  from post_created_full[OF u6 D5 l5 o5 f1] obtain f6 h6 where
    r6: "r6 = Some f6" and x6: "h6 \<noteq> h1" "h6 \<noteq> h2" "h6 \<noteq> h3" "h6 \<noteq> h4" "h6 \<noteq> h5"
    and p6: "pk d6 = next_pk s0 + 5" and f6: "file_name d6 = Some h6"
    and a6: "uploaded_at d6 = t6"
    and D6: "datasets s6 = [d2, d3, d4, d5, d6]" and n6: "next_pk s6 = next_pk s0 + 6"
    and S6: "storage s6 = [(h2, content f2), (h3, content f3), (h4, content f4), (h5, content f5), (h6, content f6)]"
    using x2 x3 x4 x5 by (auto simp: n5 S5 p1 p2 p3 p4 p5)
  have l6: "Suc (length [d3, d4, d5, d6]) = MAX_DATASETS"
    by (simp add: MAX_DATASETS_def)
  have o6: "sorted (map uploaded_at (d2 # [d3, d4, d5, d6]) @ [t7])"
    using times by (simp add: a2 a3 a4 a5 a6)
  from post_created_full[OF u7 D6 l6 o6 f2] obtain f7 h7 where
    r7: "r7 = Some f7" and x7: "h7 \<noteq> h2" "h7 \<noteq> h3" "h7 \<noteq> h4" "h7 \<noteq> h5" "h7 \<noteq> h6"
    and p7: "pk d7 = next_pk s0 + 6" and f7: "file_name d7 = Some h7"
    and a7: "uploaded_at d7 = t7"
    and D7: "datasets s7 = [d3, d4, d5, d6, d7]" and n7: "next_pk s7 = next_pk s0 + 7"
    and S7: "storage s7 = [(h3, content f3), (h4, content f4), (h5, content f5), (h6, content f6), (h7, content f7)]"
    using x3 x4 x5 x6 by (auto simp: n6 S6 p2 p3 p4 p5 p6)
  have asc: "sorted_wrt (\<lambda>a b. uploaded_at a < uploaded_at b) [d3, d4, d5, d6, d7]"
    using times by (simp add: a3 a4 a5 a6 a7)
  have h: "history_list s7 = Response (Dataset_list [d7, d6, d5, d4, d3]) 200"
    by (simp add: history_list_def D7 order_by_uploaded_at_desc_rev[OF asc])
  have ts: "map uploaded_at [d7, d6, d5, d4, d3] = [t7, t6, t5, t4, t3]"
    by (simp add: a3 a4 a5 a6 a7)
  have g1: "dataset_download (pk d1) s7 = Inr (Response Error_dataset_not_found 404)"
    by (rule get_absent) (simp add: D7 p1 p3 p4 p5 p6 p7)
  have g2: "dataset_download (pk d2) s7 = Inr (Response Error_dataset_not_found 404)"
    by (rule get_absent) (simp add: D7 p2 p3 p4 p5 p6 p7)
  have gone: "map_of (storage s5) h1 \<noteq> None \<and> map_of (storage s5) h1 = map_option content r1 \<and>
       map_of (storage s6) h1 = None \<and>
       map_of (storage s6) h2 \<noteq> None \<and> map_of (storage s6) h2 = map_option content r2 \<and>
       map_of (storage s7) h2 = None"
    using x2 x3 x4 x5 x6 x7 by (simp add: S5 S6 S7 r1 r2)
  then have fs: "\<exists>h1 h2. file_name d1 = Some h1 \<and> file_name d2 = Some h2 \<and>
       map_of (storage s5) h1 \<noteq> None \<and> map_of (storage s5) h1 = map_option content r1 \<and>
       map_of (storage s6) h1 = None \<and>
       map_of (storage s6) h2 \<noteq> None \<and> map_of (storage s6) h2 = map_option content r2 \<and>
       map_of (storage s7) h2 = None"
    using f1 f2 by blast
  have kept: "map (\<lambda>(h, c). (Some h, Some c)) (storage s7) =
      map (\<lambda>(d, r). (file_name d, map_option content r))
        [(d3, r3), (d4, r4), (d5, r5), (d6, r6), (d7, r7)]"
    by (simp add: S7 f3 f4 f5 f6 f7 r3 r4 r5 r6 r7)
  have dist: "distinct (map fst (storage s7))"
    using x4 x5 x6 x7 by (auto simp: S7)
  from h ts g1 g2 fs kept dist D5 D6 D7 show ?thesis
    by blast
qed

theorem eviction_order_witness:
  "post (\<lambda>bytes. Inr example_table) 6 (Some example_file) (kept [1, 2, 3, 4, 5] 6) =
     (Response (Dataset_data (nth_dataset 6)) 201, kept [2, 3, 4, 5, 6] 7) \<and>
   post (\<lambda>bytes. Inr example_table) 7 (Some example_file) (kept [2, 3, 4, 5, 6] 7) =
     (Response (Dataset_data (nth_dataset 7)) 201, kept [3, 4, 5, 6, 7] 8) \<and>
   history_list (kept [3, 4, 5, 6, 7] 8) =
     Response (Dataset_list (map nth_dataset [7, 6, 5, 4, 3])) 200 \<and>
   dataset_download 1 (kept [3, 4, 5, 6, 7] 8) = Inr (Response Error_dataset_not_found 404) \<and>
   dataset_download 2 (kept [3, 4, 5, 6, 7] 8) = Inr (Response Error_dataset_not_found 404) \<and>
   file_name (nth_dataset 1) = Some (stored 0) \<and>
   file_name (nth_dataset 2) = Some (stored 1) \<and>
   file_name (nth_dataset 7) = Some (stored 0) \<and>
   map_of (storage (kept [2, 3, 4, 5, 6] 7)) (stored 0) = None \<and>
   map_of (storage (kept [3, 4, 5, 6, 7] 8)) (stored 1) = None \<and>
   storage (kept [3, 4, 5, 6, 7] 8) =
     [(stored 2, ''bytes''), (stored 3, ''bytes''), (stored 4, ''bytes''),
      (stored 5, ''bytes''), (stored 0, ''bytes'')] \<and>
   distinct (map fst (storage (kept [3, 4, 5, 6, 7] 8)))"
proof -
  have e: "datasets (kept [] 1) = []" "storage (kept [] 1) = []"
    by (simp_all add: kept_def)
  have t: "(1::int) < 2" "(2::int) < 3" "(3::int) < 4" "(4::int) < 5" "(5::int) < 6" "(6::int) < 7"
    by simp_all
  note r = eviction_order[OF e t seven_uploads]
  have p: "pk (nth_dataset 1) = 1" "pk (nth_dataset 2) = 2"
    by (simp_all add: nth_dataset_def)
  have n: "file_name (nth_dataset 1) = Some (stored 0)"
    "file_name (nth_dataset 2) = Some (stored 1)"
    "file_name (nth_dataset 7) = Some (stored 0)"
    by (simp_all add: nth_dataset_def)
  have st: "storage (kept [3, 4, 5, 6, 7] 8) =
     [(stored 2, ''bytes''), (stored 3, ''bytes''), (stored 4, ''bytes''),
      (stored 5, ''bytes''), (stored 0, ''bytes'')]"
    by (simp add: kept_def)
  from r have "history_list (kept [3, 4, 5, 6, 7] 8) =
      Response (Dataset_list (map nth_dataset [7, 6, 5, 4, 3])) 200"
    by simp
  moreover from r have "dataset_download 1 (kept [3, 4, 5, 6, 7] 8) =
      Inr (Response Error_dataset_not_found 404)"
    unfolding p by blast
  moreover from r have "dataset_download 2 (kept [3, 4, 5, 6, 7] 8) =
      Inr (Response Error_dataset_not_found 404)"
    unfolding p by blast
  moreover from r have "map_of (storage (kept [2, 3, 4, 5, 6] 7)) (stored 0) = None"
    unfolding n by blast
  moreover from r have "map_of (storage (kept [3, 4, 5, 6, 7] 8)) (stored 1) = None"
    unfolding n by blast
  moreover from r have "distinct (map fst (storage (kept [3, 4, 5, 6, 7] 8)))"
    by blast
  ultimately show ?thesis
    using seven_uploads(6,7) n st by blast
qed

subsection \<open>C6: the history\<close>

text \<open>
  C6, as the code has it. The history is a list (finite, built in full) that holds every
  stored Dataset exactly once, ordered descending by \<open>uploaded_at\<close>; when no two rows
  have the same \<open>uploaded_at\<close> the order is strict, so it is fully determined. The query
  names no second key: nothing orders rows of equal \<open>uploaded_at\<close> by id.
\<close>

theorem history_list_order:
  "\<exists>ds. history_list s = Response (Dataset_list ds) 200 \<and>
     mset ds = mset (datasets s) \<and>
     sorted_wrt (\<lambda>a b. uploaded_at b \<le> uploaded_at a) ds \<and>
     (distinct (map uploaded_at (datasets s)) \<longrightarrow>
        sorted_wrt (\<lambda>a b. uploaded_at b < uploaded_at a) ds)"
  unfolding history_list_def
  using mset_order_by_uploaded_at_desc[of "datasets s"]
    order_by_uploaded_at_desc_sorted[of "datasets s"]
    order_by_uploaded_at_desc_strict[of "datasets s"]
  by blast

theorem history_list_order_witness:
  "distinct (map uploaded_at (datasets (kept [1, 2, 3] 4))) \<and>
   history_list (kept [1, 2, 3] 4) = Response (Dataset_list (map nth_dataset [3, 2, 1])) 200 \<and>
   sorted_wrt (\<lambda>a b. uploaded_at b < uploaded_at a) (map nth_dataset [3, 2, 1])"
proof -
  have d: "distinct (map uploaded_at (datasets (kept [1, 2, 3] 4)))"
    by (simp add: kept_def nth_dataset_def)
  have h: "history_list (kept [1, 2, 3] 4) = Response (Dataset_list (map nth_dataset [3, 2, 1])) 200"
    by (simp add: history_list_def order_by_uploaded_at_desc_def kept_def nth_dataset_def)
  from history_list_order[of "kept [1, 2, 3] 4"] d h show ?thesis
    by auto
qed

text \<open>
  C6 as stated fails on \<open>tie_store\<close>, reached by two uploads at the same clock
  reading: the two rows have equal \<open>uploaded_at\<close> and the history lists the lower id first.
\<close>

theorem history_tie_counterexample:
  "post (\<lambda>bytes. Inr example_table) 7 (Some example_file) empty_store =
     (Response (Dataset_data first_dataset) 201, one_store) \<and>
   post (\<lambda>bytes. Inr example_table) 7 (Some example_file) one_store =
     (Response (Dataset_data second_dataset) 201, tie_store) \<and>
   history_list tie_store = Response (Dataset_list [first_dataset, second_dataset]) 200 \<and>
   uploaded_at first_dataset = uploaded_at second_dataset \<and>
   pk first_dataset < pk second_dataset"
  using first_upload second_upload
  by (simp add: history_list_def order_by_uploaded_at_desc_def tie_store_def
      first_dataset_def second_dataset_def)

subsection \<open>C7: the latest Dataset\<close>

text \<open>
  C7, as the code has it. \<open>latest\<close> raises DoesNotExist exactly when the table is empty
  (the view then answers 404), and raises nothing else; on a non-empty table it returns a stored Dataset whose
  \<open>uploaded_at\<close> is maximal; after one successful upload into a store without rows it
  returns the Dataset of that upload. Among rows of equal maximal \<open>uploaded_at\<close> no rule
  of the code picks the highest id.
\<close>

theorem latest_maximal:
  "(latest s = Inl DoesNotExist \<longleftrightarrow> datasets s = []) \<and>
   (latest_summary s = Inr (Response Error_no_datasets 404) \<longleftrightarrow> datasets s = []) \<and>
   (\<forall>e. latest s = Inl e \<longrightarrow> e = DoesNotExist) \<and>
   (\<forall>d. latest s = Inr d \<longrightarrow>
      d \<in> set (datasets s) \<and> (\<forall>e\<in>set (datasets s). uploaded_at e \<le> uploaded_at d)) \<and>
   (datasets s = [] \<and> post read_csv now req s = (Response (Dataset_data d0) 201, s') \<longrightarrow>
      latest s' = Inr d0)"
proof -
  have one: "latest s' = Inr d0"
    if e: "datasets s = []" and p: "post read_csv now req s = (Response (Dataset_data d0) 201, s')"
  proof -
    obtain f :: uploaded_file and h where c: "cleanup_old_datasets
        (s\<lparr>storage := storage s @ [(h, content f)],
           datasets := datasets s @ [d0], next_pk := Suc (next_pk s)\<rparr>) = (None, s')"
      using post_created[OF p] by blast
    have "datasets s' = [d0]"
      using c e by (simp add: cleanup_noop count_def MAX_DATASETS_def) auto
    then show ?thesis
      by (simp add: latest_def order_by_uploaded_at_desc_def)
  qed
  have view: "latest_summary s = Inr (Response Error_no_datasets 404) \<longleftrightarrow> datasets s = []"
    using latest_empty_iff[of s] latest_only_DoesNotExist[of s]
    by (cases "latest s") (auto simp: latest_summary_def)
  show ?thesis
    using latest_empty_iff[of s] latest_only_DoesNotExist[of s] latest_maximum[of s] one view
    by blast
qed

theorem latest_maximal_witness:
  "datasets empty_store = [] \<and>
   latest empty_store = Inl DoesNotExist \<and>
   post (\<lambda>bytes. Inr example_table) 7 (Some example_file) empty_store =
     (Response (Dataset_data first_dataset) 201, one_store) \<and>
   latest one_store = Inr first_dataset \<and>
   first_dataset \<in> set (datasets one_store)"
proof -
  have e: "datasets empty_store = []"
    by (simp add: empty_store_def)
  from latest_maximal[of empty_store "\<lambda>bytes. Inr example_table" 7 "Some example_file"
      first_dataset one_store] e first_upload
  have l: "latest empty_store = Inl DoesNotExist" "latest one_store = Inr first_dataset"
    by simp_all
  from latest_maximal[of one_store] l(2) have "first_dataset \<in> set (datasets one_store)"
    by blast
  with e l first_upload show ?thesis
    by simp
qed

text \<open>
  C7 as stated fails on \<open>tie_store\<close>: both rows have the maximal \<open>uploaded_at\<close>, and
  \<open>latest\<close> returns the one with the lower id.
\<close>

theorem latest_tie_counterexample:
  "post (\<lambda>bytes. Inr example_table) 7 (Some example_file) empty_store =
     (Response (Dataset_data first_dataset) 201, one_store) \<and>
   post (\<lambda>bytes. Inr example_table) 7 (Some example_file) one_store =
     (Response (Dataset_data second_dataset) 201, tie_store) \<and>
   latest tie_store = Inr first_dataset \<and>
   second_dataset \<in> set (datasets tie_store) \<and>
   uploaded_at second_dataset = uploaded_at first_dataset \<and>
   pk first_dataset < pk second_dataset"
  using first_upload second_upload
  by (simp add: latest_def order_by_uploaded_at_desc_def tie_store_def
      first_dataset_def second_dataset_def)

subsection \<open>C8: retention is idempotent\<close>

text \<open>
  C8. For every store, running the retention loop on the store that a first run left gives
  the same result as the first run; and on a store with at most \<open>MAX_DATASETS\<close> rows the
  loop changes nothing.
\<close>

theorem cleanup_idempotent:
  "cleanup_old_datasets (snd (cleanup_old_datasets s)) = cleanup_old_datasets s \<and>
   (count s \<le> MAX_DATASETS \<longrightarrow> cleanup_old_datasets s = (None, s))"
proof -
  obtain s' where c: "cleanup_old_datasets s = (None, s')"
    using cleanup_result[of s] by (cases "cleanup_old_datasets s") auto
  then have "count s' \<le> MAX_DATASETS"
    using cleanup_result[of s] by simp
  then have "cleanup_old_datasets s' = (None, s')"
    by (rule cleanup_noop)
  with c have "cleanup_old_datasets (snd (cleanup_old_datasets s)) = cleanup_old_datasets s"
    by simp
  then show ?thesis
    using cleanup_noop[of s] by blast
qed

theorem cleanup_idempotent_witness:
  "cleanup_old_datasets (kept [1, 2, 3, 4, 5, 6] 7) = (None, kept [2, 3, 4, 5, 6] 7) \<and>
   count (kept [2, 3, 4, 5, 6] 7) \<le> MAX_DATASETS \<and>
   cleanup_old_datasets (kept [2, 3, 4, 5, 6] 7) = (None, kept [2, 3, 4, 5, 6] 7)"
proof -
  have c: "count (kept [2, 3, 4, 5, 6] 7) \<le> MAX_DATASETS"
    by (simp add: count_def kept_def MAX_DATASETS_def)
  have o: "cleanup_old_datasets (kept [1, 2, 3, 4, 5, 6] 7) = (None, kept [2, 3, 4, 5, 6] 7)"
    by (simp add: cleanup_record_over delete_def file_delete_def kept_def nth_dataset_def
        stored_def MAX_DATASETS_def)
  from cleanup_idempotent[of "kept [2, 3, 4, 5, 6] 7"] c o show ?thesis
    by simp
qed

subsection \<open>C9: an upload without a file\<close>

text \<open>
  C9. A request that carries no file is answered with the error \<^verbatim>\<open>No file provided\<close> and
  status 400, and the store is returned as it was: nothing is created, nothing is deleted.
\<close>

theorem no_file_provided:
  "post read_csv now None s = (Response Error_no_file 400, s)"
  by (simp add: post_def)

theorem no_file_provided_witness:
  "post (\<lambda>bytes. Inr example_table) 0 None empty_store = (Response Error_no_file 400, empty_store)"
  by (rule no_file_provided)

subsection \<open>C10: a table with a header and no rows\<close>

text \<open>
  C10 says that a table with the required columns and no data row is ingested: a Dataset
  with \<open>total_count = 0\<close> and an empty \<open>type_distribution\<close> is created. The code computes
  that summary, but the three averages in it are NaN (a mean over no values), the summary
  is not valid JSON, and the insert into the JSON column fails: for every such table the
  upload is answered with the processing error of status 500 and the table of datasets is
  unchanged.
\<close>

theorem header_only_not_stored:
  assumes "name f \<noteq> []" and "read_csv (content f) = Inr df"
    and "REQUIRED_COLUMNS \<subseteq> set (columns df)" and "rows df = []"
  shows "calculate_summary df =
           Inr \<lparr>total_count = 0,
                averages = [(''Flowrate'', NaN), (''Pressure'', NaN), (''Temperature'', NaN)],
                type_distribution = []\<rparr> \<and>
         fst (post read_csv now (Some f) s) = Response (Error_processing IntegrityError) 500 \<and>
         datasets (snd (post read_csv now (Some f) s)) = datasets s"
proof -
  note cs = calculate_summary_no_rows[OF assms(3,4)]
  show ?thesis
    using assms(1-3)
    by (simp add: cs post_def create_def json_valid_def Let_def)
qed

theorem header_only_not_stored_witness:
  "calculate_summary header_only_table =
     Inr \<lparr>total_count = 0,
          averages = [(''Flowrate'', NaN), (''Pressure'', NaN), (''Temperature'', NaN)],
          type_distribution = []\<rparr> \<and>
   fst (post (\<lambda>bytes. Inr header_only_table) 0 (Some example_file) empty_store) =
     Response (Error_processing IntegrityError) 500 \<and>
   datasets (snd (post (\<lambda>bytes. Inr header_only_table) 0 (Some example_file) empty_store)) = []"
proof -
  have n: "name example_file \<noteq> []"
    by (simp add: example_file_def)
  have r: "(\<lambda>bytes. Inr header_only_table) (content example_file) = Inr header_only_table"
    by simp
  have q: "REQUIRED_COLUMNS \<subseteq> set (columns header_only_table)"
    using example_required by (simp add: header_only_table_def)
  have e: "rows header_only_table = []"
    by (simp add: header_only_table_def)
  from header_only_not_stored[OF n r q e, of 0 empty_store] show ?thesis
    by (simp add: empty_store_def)
qed

text \<open>
  The same on \<open>header_only_table\<close>, with the store that the upload leaves: no row,
  and the file that was saved before the insert still in the storage.
\<close>

lemma header_only_upload:
  "post (\<lambda>bytes. Inr header_only_table) 0 (Some example_file) empty_store =
     (Response (Error_processing IntegrityError) 500,
      \<lparr>datasets = [], next_pk = 1, storage = [(stored 0, ''bytes'')]\<rparr>)"
  using example_required
  by (simp add: post_def create_def json_valid_def get_available_name_def available.simps
      stored_def summary_defs example_defs)

end
